theory Spec2Isabelle
  imports Complex_Main
begin

section \<open>Role assignment for the speakers of a broadcast (dj\_stat\_ratio5.py)\<close>

text \<open>
  The development embeds the two functions of \<^verbatim>\<open>dj_stat_ratio5.py\<close>,
  \<^verbatim>\<open>get_dominant_speaker\<close> and \<^verbatim>\<open>calculate_stats_multi_guest\<close>.

  Conventions of the embedding:
  \<^item> a Python \<^verbatim>\<open>str\<close> is a \<open>string\<close>; the characters are those of Latin-1, on which
    the class \<^verbatim>\<open>\d\<close> of \<^verbatim>\<open>re\<close> is exactly \<^verbatim>\<open>0\<close> to \<^verbatim>\<open>9\<close>;
  \<^item> a Python \<^verbatim>\<open>float\<close> (the column \<^verbatim>\<open>Duration\<close>, the ratio, the cutoff) is a rational
    number: sums, quotients and comparisons are exact, and the literal \<^verbatim>\<open>0.2\<close> is \<open>1/5\<close>;
  \<^item> a Python \<^verbatim>\<open>dict\<close> is an association list in insertion order, because the order
    of \<^verbatim>\<open>items()\<close> decides ties of the stable \<^verbatim>\<open>sorted\<close>;
  \<^item> the data frame has the default index \<^verbatim>\<open>0, 1, 2, ...\<close> (as \<^verbatim>\<open>pd.read_csv\<close> in
    \<^verbatim>\<open>main\<close> builds it), so the label of a row is its position;
  \<^item> \<^verbatim>\<open>df.apply(f, axis=1)\<close> is the list of the values of \<^verbatim>\<open>f\<close> on the rows, one for
    each row, also for a frame without rows;
  \<^item> \<^verbatim>\<open>round(x, 2)\<close> and the format \<^verbatim>\<open>.1f\<close> round the exact value to the nearest
    multiple of 0.01 and 0.1, a tie to the even one;
  \<^item> the lines written with \<^verbatim>\<open>print\<close> are a list of events that carry the values shown.
\<close>

subsection \<open>The data frame\<close>

text \<open>
  A cell of the column \<^verbatim>\<open>Speakers\<close> is a text or something else (a missing value of
  \<^verbatim>\<open>read_csv\<close> is the float NaN); \<^verbatim>\<open>isinstance(speaker_str, str)\<close> tells them apart.
\<close>

datatype cell = Text string | NotText

record row =
  Type :: string
  Speakers :: cell
  Duration :: rat

text \<open>
  The column \<^verbatim>\<open>Dominant_Speaker\<close> is absent from a loaded frame (\<open>None\<close>) and is
  written by the function itself; a value of this column is a label or Python's \<^verbatim>\<open>None\<close>.
\<close>

record dataframe =
  rows :: "row list"
  Dominant_Speaker :: "string option list option"

subsection \<open>get\_dominant\_speaker\<close>

definition is_digit :: "char \<Rightarrow> bool" where
  "is_digit c = (c \<in> set ''0123456789'')"

text \<open>
  \<^verbatim>\<open>re.match\<close> of \<^verbatim>\<open>(SPEAKER_\d+)\<close> at the head of a text: the literal, then the longest
  non-empty run of digits (\<^verbatim>\<open>+\<close> is greedy and nothing follows it in the pattern).
\<close>

definition match_here :: "string \<Rightarrow> string option" where
  "match_here s =
     (if take 8 s = ''SPEAKER_'' then
        (let ds = takeWhile is_digit (drop 8 s)
         in if ds = [] then None else Some (''SPEAKER_'' @ ds))
      else None)"

text \<open>\<^verbatim>\<open>re.search\<close>: the match at the leftmost position that has one.\<close>

fun re_search :: "string \<Rightarrow> string option" where
  "re_search [] = None"
| "re_search (c # cs) =
     (case match_here (c # cs) of
        Some m \<Rightarrow> Some m
      | None \<Rightarrow> re_search cs)"

fun get_dominant_speaker :: "cell \<Rightarrow> string option" where
  "get_dominant_speaker NotText = None"
| "get_dominant_speaker (Text speaker_str) = re_search speaker_str"

subsection \<open>Dictionaries in insertion order\<close>

text \<open>
  \<^verbatim>\<open>d[k] = v\<close>: an existing key keeps its place and gets the new value, a new key goes
  to the end. \<^verbatim>\<open>d.get(k, default)\<close> reads with a default.
\<close>

fun dict_set :: "'k \<Rightarrow> 'v \<Rightarrow> ('k \<times> 'v) list \<Rightarrow> ('k \<times> 'v) list" where
  "dict_set k v [] = [(k, v)]"
| "dict_set k v ((k', v') # d) =
     (if k' = k then (k', v) # d else (k', v') # dict_set k v d)"

definition dict_get :: "('k \<times> 'v) list \<Rightarrow> 'k \<Rightarrow> 'v \<Rightarrow> 'v" where
  "dict_get d k dflt = (case map_of d k of Some v \<Rightarrow> v | None \<Rightarrow> dflt)"

datatype error = KeyError string | IndexError

subsection \<open>Step 1: the column Dominant\_Speaker\<close>

text \<open>The function applied to each row, and \<^verbatim>\<open>df.apply(..., axis=1)\<close>.\<close>

definition dominant_speaker_of :: "row \<Rightarrow> string option" where
  "dominant_speaker_of r =
     (if Type r = ''speech'' then get_dominant_speaker (Speakers r) else None)"

definition dominant_speaker_column :: "row list \<Rightarrow> string option list" where
  "dominant_speaker_column rs = map dominant_speaker_of rs"

text \<open>\<^verbatim>\<open>df.iterrows()\<close> once the column is written: index, row, value of the column.\<close>

definition iterrows :: "row list \<Rightarrow> string option list \<Rightarrow> (nat \<times> row \<times> string option) list" where
  "iterrows rs col = zip [0..<length rs] (zip rs col)"

subsection \<open>Step 2: total duration for each label\<close>

text \<open>\<^verbatim>\<open>if spk:\<close> holds for a non-empty string, not for \<^verbatim>\<open>None\<close> or the empty string.\<close>

fun duration_step :: "nat \<times> row \<times> string option \<Rightarrow> (string \<times> rat) list \<Rightarrow> (string \<times> rat) list" where
  "duration_step (idx, r, dominant) duration_stats =
     (if Type r \<noteq> ''speech'' then duration_stats
      else case dominant of
             None \<Rightarrow> duration_stats
           | Some spk \<Rightarrow>
               if spk \<noteq> [] then
                 dict_set spk (dict_get duration_stats spk 0 + Duration r) duration_stats
               else duration_stats)"

definition duration_loop :: "(nat \<times> row \<times> string option) list \<Rightarrow> (string \<times> rat) list" where
  "duration_loop items = fold duration_step items []"

text \<open>The dictionary \<^verbatim>\<open>duration_stats\<close> that the rows of a frame give.\<close>

definition duration_stats_of :: "row list \<Rightarrow> (string \<times> rat) list" where
  "duration_stats_of rs = duration_loop (iterrows rs (dominant_speaker_column rs))"

text \<open>
  \<^verbatim>\<open>sorted(d.items(), key=lambda x: x[1], reverse=True)\<close>: a stable sort, largest value
  first; with \<^verbatim>\<open>reverse=True\<close> equal elements keep their original order.
\<close>

definition sorted_durations_of :: "(string \<times> rat) list \<Rightarrow> (string \<times> rat) list" where
  "sorted_durations_of duration_stats = sort_key (\<lambda>x. - snd x) duration_stats"

subsection \<open>Step 3: interactions with the DJ\<close>

fun indices_step ::
  "nat \<times> row \<times> string option \<Rightarrow> (string \<times> nat list) list \<Rightarrow> error + (string \<times> nat list) list" where
  "indices_step (idx, r, dominant) speaker_indices =
     (if Type r \<noteq> ''speech'' then Inr speaker_indices
      else case dominant of
             None \<Rightarrow> Inr speaker_indices
           | Some spk \<Rightarrow>
               if spk \<noteq> [] then
                 (case map_of speaker_indices spk of
                    None \<Rightarrow> Inl (KeyError spk)
                  | Some l \<Rightarrow> Inr (dict_set spk (l @ [idx]) speaker_indices))
               else Inr speaker_indices)"

fun indices_loop ::
  "(nat \<times> row \<times> string option) list \<Rightarrow> (string \<times> nat list) list \<Rightarrow> error + (string \<times> nat list) list" where
  "indices_loop [] speaker_indices = Inr speaker_indices"
| "indices_loop (item # items) speaker_indices =
     (case indices_step item speaker_indices of
        Inl e \<Rightarrow> Inl e
      | Inr speaker_indices' \<Rightarrow> indices_loop items speaker_indices')"

text \<open>
  The inner loop over the offsets, with its \<^verbatim>\<open>break\<close>: the result says whether the count
  is incremented for this index. \<^verbatim>\<open>len(df)\<close> is the length of the column.
\<close>

fun dj_nearby :: "string option list \<Rightarrow> string \<Rightarrow> nat \<Rightarrow> int list \<Rightarrow> bool" where
  "dj_nearby col dj_id idx [] = False"
| "dj_nearby col dj_id idx (offset # offsets) =
     (let neighbor_idx = int idx + offset in
      if 0 \<le> neighbor_idx \<and> neighbor_idx < int (length col) then
        (if col ! nat neighbor_idx = Some dj_id then True
         else dj_nearby col dj_id idx offsets)
      else dj_nearby col dj_id idx offsets)"

definition offset_list :: "int list" where
  "offset_list = [-3, -2, -1, 1, 2, 3]"

definition count_indices :: "string option list \<Rightarrow> string \<Rightarrow> nat list \<Rightarrow> nat" where
  "count_indices col dj_id indices =
     fold (\<lambda>idx count. if dj_nearby col dj_id idx offset_list then count + 1 else count) indices 0"

fun interaction_step ::
  "string option list \<Rightarrow> string \<Rightarrow> string \<times> nat list \<Rightarrow> (string \<times> nat) list \<Rightarrow> (string \<times> nat) list" where
  "interaction_step col dj_id (spk, indices) interaction_counts =
     (if spk = dj_id then dict_set spk 0 interaction_counts
      else dict_set spk (count_indices col dj_id indices) interaction_counts)"

definition interaction_loop ::
  "string option list \<Rightarrow> string \<Rightarrow> (string \<times> nat list) list \<Rightarrow> (string \<times> nat) list" where
  "interaction_loop col dj_id speaker_indices = fold (interaction_step col dj_id) speaker_indices []"

subsection \<open>Step 4: guests\<close>

text \<open>The lines of \<^verbatim>\<open>print\<close>, with the values they show.\<close>

datatype event =
    DJ_Identified string rat
  | Analysis_Header
  | Benchmark string nat
  | Cutoff_Line rat nat
  | Guest_Line string nat string
  | Ad_Line string nat

definition MIN_ABSOLUTE_THRESHOLD :: nat where
  "MIN_ABSOLUTE_THRESHOLD = 12"

definition RELATIVE_RATIO :: rat where
  "RELATIVE_RATIO = 2 / 10"

definition FREE_PASS_THRESHOLD :: nat where
  "FREE_PASS_THRESHOLD = 20"

definition candidates_of :: "string \<Rightarrow> (string \<times> nat) list \<Rightarrow> (string \<times> nat) list" where
  "candidates_of dj_id interaction_counts =
     sort_key (\<lambda>x. - int (snd x)) (filter (\<lambda>(spk, cnt). spk \<noteq> dj_id) interaction_counts)"

definition cutoff_of :: "nat \<Rightarrow> rat" where
  "cutoff_of top_guest_cnt =
     max (of_nat MIN_ABSOLUTE_THRESHOLD) (of_nat top_guest_cnt * RELATIVE_RATIO)"

fun guest_step :: "rat \<Rightarrow> string \<times> nat \<Rightarrow> string list \<times> event list \<Rightarrow> string list \<times> event list" where
  "guest_step cutoff_value (spk, cnt) (guest_list, out) =
     (let (is_guest, reason) =
        (if cnt \<ge> FREE_PASS_THRESHOLD then (True, ''High Interaction (Free Pass)'')
         else if of_nat cnt \<ge> cutoff_value then (True, ''Passed Relative Cutoff'')
         else (False, []))
      in if is_guest then (guest_list @ [spk], out @ [Guest_Line spk cnt reason])
         else (guest_list, out @ [Ad_Line spk cnt]))"

definition classify :: "(string \<times> nat) list \<Rightarrow> string list \<times> event list" where
  "classify candidates =
     (case candidates of
        [] \<Rightarrow> ([], [])
      | (top_guest_spk, top_guest_cnt) # _ \<Rightarrow>
          (let cutoff_value = cutoff_of top_guest_cnt
           in fold (guest_step cutoff_value) candidates
                ([], [Analysis_Header, Benchmark top_guest_spk top_guest_cnt,
                      Cutoff_Line cutoff_value FREE_PASS_THRESHOLD])))"

subsection \<open>Step 5: the result\<close>

text \<open>
  \<^verbatim>\<open>round\<close> and the format \<^verbatim>\<open>.1f\<close> round to the nearest, a tie to the even neighbour.
\<close>

definition round_half_even :: "rat \<Rightarrow> int" where
  "round_half_even x =
     (let f = \<lfloor>x\<rfloor>; d = x - of_int f
      in if d < 1 / 2 then f else if 1 / 2 < d then f + 1 else if even f then f else f + 1)"

definition round2 :: "rat \<Rightarrow> rat" where
  "round2 x = of_int (round_half_even (x * 100)) / 100"

fun show_nat :: "nat \<Rightarrow> string" where
  "show_nat n =
     (if n < 10 then [''0123456789'' ! n]
      else show_nat (n div 10) @ [''0123456789'' ! (n mod 10)])"

declare show_nat.simps [simp del]

definition format_1f :: "rat \<Rightarrow> string" where
  "format_1f x =
     (let n = nat (round_half_even (\<bar>x\<bar> * 10))
      in (if x < 0 then ''-'' else []) @ show_nat (n div 10) @ ''.'' @ show_nat (n mod 10))"

record result_row =
  Speaker :: string
  Role :: string
  Total_Duration :: rat
  Ratio_to_DJ :: string
  Interaction_Count :: nat

definition ratio_to_dj_of :: "rat \<Rightarrow> rat \<Rightarrow> rat" where
  "ratio_to_dj_of dj_duration total_dur =
     (if dj_duration > 0 then total_dur / dj_duration * 100 else 0)"

fun result_of ::
  "string \<Rightarrow> rat \<Rightarrow> string list \<Rightarrow> (string \<times> nat) list \<Rightarrow> string \<times> rat \<Rightarrow> result_row" where
  "result_of dj_id dj_duration guest_list interaction_counts (spk, total_dur) =
     (let role = (if spk = dj_id then ''DJ''
                  else if spk \<in> set guest_list then ''GUEST''
                  else ''AD_SPEAKER'');
          ratio_to_dj = ratio_to_dj_of dj_duration total_dur;
          interact_count = dict_get interaction_counts spk 0
      in \<lparr>Speaker = spk, Role = role, Total_Duration = round2 total_dur,
          Ratio_to_DJ = format_1f ratio_to_dj @ ''%'', Interaction_Count = interact_count\<rparr>)"

subsection \<open>calculate\_stats\_multi\_guest\<close>

text \<open>
  What a call leaves behind: the frame it was given (which it writes to), the lines
  printed, and the returned table; \<^verbatim>\<open>pd.DataFrame()\<close> is the table without rows.
\<close>

record outcome =
  frame :: dataframe
  printed :: "event list"
  returned :: "result_row list"

definition calculate_stats_multi_guest :: "dataframe \<Rightarrow> error + outcome" where
  "calculate_stats_multi_guest df0 =
     (let col = dominant_speaker_column (rows df0);
          df = df0\<lparr>Dominant_Speaker := Some col\<rparr>;
          duration_stats = duration_loop (iterrows (rows df) col)
      in if duration_stats = [] then Inr \<lparr>frame = df, printed = [], returned = []\<rparr>
         else
           (case sorted_durations_of duration_stats of
              [] \<Rightarrow> Inl IndexError
            | (dj_id, dj_duration) # _ \<Rightarrow>
                (case indices_loop (iterrows (rows df) col)
                        (map (\<lambda>spk. (spk, [])) (map fst duration_stats)) of
                   Inl e \<Rightarrow> Inl e
                 | Inr speaker_indices \<Rightarrow>
                     (let interaction_counts = interaction_loop col dj_id speaker_indices;
                          candidates = candidates_of dj_id interaction_counts;
                          (guest_list, out) = classify candidates
                      in Inr \<lparr>frame = df,
                              printed = DJ_Identified dj_id dj_duration # out,
                              returned = map (result_of dj_id dj_duration guest_list interaction_counts)
                                           (sorted_durations_of duration_stats)\<rparr>))))"

subsection \<open>Inputs used in the examples\<close>

definition speech :: "string \<Rightarrow> rat \<Rightarrow> row" where
  "speech text d = \<lparr>Type = ''speech'', Speakers = Text text, Duration = d\<rparr>"

definition loaded :: "row list \<Rightarrow> dataframe" where
  "loaded rs = \<lparr>rows = rs, Dominant_Speaker = None\<rparr>"

text \<open>
  The end-to-end scenario: ten speech segments with the labels A, A, B, A, C, A, B, A, A, A
  and the durations 5, 5, 1, 5, 1, 5, 1, 5, 5, 5, where A, B and C are written as labels
  that the pattern accepts.
\<close>

definition scenario :: dataframe where
  "scenario = loaded
     [speech ''SPEAKER_00'' 5, speech ''SPEAKER_00'' 5, speech ''SPEAKER_01'' 1,
      speech ''SPEAKER_00'' 5, speech ''SPEAKER_02'' 1, speech ''SPEAKER_00'' 5,
      speech ''SPEAKER_01'' 1, speech ''SPEAKER_00'' 5, speech ''SPEAKER_00'' 5,
      speech ''SPEAKER_00'' 5]"

definition scenario_expected :: "result_row list" where
  "scenario_expected =
     [\<lparr>Speaker = ''SPEAKER_00'', Role = ''DJ'', Total_Duration = 40,
       Ratio_to_DJ = ''100.0%'', Interaction_Count = 0\<rparr>,
      \<lparr>Speaker = ''SPEAKER_01'', Role = ''AD_SPEAKER'', Total_Duration = 2,
       Ratio_to_DJ = ''5.0%'', Interaction_Count = 2\<rparr>,
      \<lparr>Speaker = ''SPEAKER_02'', Role = ''AD_SPEAKER'', Total_Duration = 1,
       Ratio_to_DJ = ''2.5%'', Interaction_Count = 1\<rparr>]"

definition scenario_computed :: "result_row list" where
  "scenario_computed =
     [\<lparr>Speaker = ''SPEAKER_00'', Role = ''DJ'', Total_Duration = 35,
       Ratio_to_DJ = ''100.0%'', Interaction_Count = 0\<rparr>,
      \<lparr>Speaker = ''SPEAKER_01'', Role = ''AD_SPEAKER'', Total_Duration = 2,
       Ratio_to_DJ = ''5.7%'', Interaction_Count = 2\<rparr>,
      \<lparr>Speaker = ''SPEAKER_02'', Role = ''AD_SPEAKER'', Total_Duration = 1,
       Ratio_to_DJ = ''2.9%'', Interaction_Count = 1\<rparr>]"

text \<open>A frame in which no speech row has a label.\<close>

definition silent :: dataframe where
  "silent = loaded
     [\<lparr>Type = ''music'', Speakers = Text ''SPEAKER_01'', Duration = 3\<rparr>,
      speech ''applause'' 2,
      \<lparr>Type = ''speech'', Speakers = NotText, Duration = 1\<rparr>]"



text \<open>
  A conversation: twelve times a segment of the host followed by a segment of a guest,
  then one segment of a third speaker.
\<close>

definition talk :: dataframe where
  "talk = loaded
     (concat (replicate 12 [speech ''SPEAKER_00'' 5, speech ''SPEAKER_01'' 1]) @
      [speech ''SPEAKER_02'' 1])"

definition talk_computed :: "result_row list" where
  "talk_computed =
     [\<lparr>Speaker = ''SPEAKER_00'', Role = ''DJ'', Total_Duration = 60,
       Ratio_to_DJ = ''100.0%'', Interaction_Count = 0\<rparr>,
      \<lparr>Speaker = ''SPEAKER_01'', Role = ''GUEST'', Total_Duration = 12,
       Ratio_to_DJ = ''20.0%'', Interaction_Count = 12\<rparr>,
      \<lparr>Speaker = ''SPEAKER_02'', Role = ''AD_SPEAKER'', Total_Duration = 1,
       Ratio_to_DJ = ''1.7%'', Interaction_Count = 1\<rparr>]"

subsection \<open>Notions used in the statements\<close>

text \<open>
  The positions of the rows whose value in the column is the label \<open>spk\<close>, in increasing
  order: the list that \<^verbatim>\<open>speaker_indices[spk]\<close> holds when the loop of step 3 is over.
\<close>

definition indices_of :: "string option list \<Rightarrow> string \<Rightarrow> nat list" where
  "indices_of col spk = filter (\<lambda>p. col ! p = Some spk) [0..<length col]"

text \<open>
  The dictionary \<^verbatim>\<open>interaction_counts\<close> and the list \<^verbatim>\<open>guest_list\<close> that the rows of a
  frame give once \<open>dj_id\<close> is the DJ.
\<close>

definition interaction_counts_of :: "row list \<Rightarrow> string \<Rightarrow> (string \<times> nat) list" where
  "interaction_counts_of rs dj_id =
     (let col = dominant_speaker_column rs
      in interaction_loop col dj_id
           (map (\<lambda>spk. (spk, indices_of col spk)) (map fst (duration_stats_of rs))))"

definition guest_list_of :: "row list \<Rightarrow> string \<Rightarrow> string list" where
  "guest_list_of rs dj_id = fst (classify (candidates_of dj_id (interaction_counts_of rs dj_id)))"


section \<open>Properties\<close>

subsection \<open>Labels, rows and dictionaries\<close>

lemma match_here_not_Nil: "match_here s = Some m \<Longrightarrow> m \<noteq> []"
  by (auto simp: match_here_def Let_def split: if_splits)

lemma re_search_not_Nil: "re_search s = Some m \<Longrightarrow> m \<noteq> []"
  by (induction s) (auto split: option.splits dest: match_here_not_Nil)

lemma dominant_speaker_of_Some:
  "dominant_speaker_of r = Some spk \<Longrightarrow> Type r = ''speech'' \<and> spk \<noteq> []"
  by (cases "Speakers r") (auto simp: dominant_speaker_of_def split: if_splits dest: re_search_not_Nil)

lemma length_dominant_speaker_column [simp]:
  "length (dominant_speaker_column rs) = length rs"
  by (simp add: dominant_speaker_column_def)

lemma iterrows_snoc:
  "length col = length rs \<Longrightarrow> iterrows (rs @ [r]) (col @ [c]) = iterrows rs col @ [(length rs, r, c)]"
  by (simp add: iterrows_def)

lemma dominant_speaker_column_snoc:
  "dominant_speaker_column (rs @ [r]) = dominant_speaker_column rs @ [dominant_speaker_of r]"
  by (simp add: dominant_speaker_column_def)

lemma duration_step_labelled:
  "duration_step (idx, r, dominant_speaker_of r) st =
     (case dominant_speaker_of r of
        None \<Rightarrow> st
      | Some spk \<Rightarrow> dict_set spk (dict_get st spk 0 + Duration r) st)"
  by (auto split: option.splits dest: dominant_speaker_of_Some)

lemma duration_stats_of_Nil [simp]: "duration_stats_of [] = []"
  by (simp add: duration_stats_of_def duration_loop_def iterrows_def)

lemma duration_stats_of_snoc:
  "duration_stats_of (rs @ [r]) =
     (case dominant_speaker_of r of
        None \<Rightarrow> duration_stats_of rs
      | Some spk \<Rightarrow>
          dict_set spk (dict_get (duration_stats_of rs) spk 0 + Duration r) (duration_stats_of rs))"
  unfolding duration_stats_of_def duration_loop_def
  by (simp add: dominant_speaker_column_snoc iterrows_snoc duration_step_labelled
        del: duration_step.simps)


lemma keys_dict_set:
  "map fst (dict_set k v d) = (if k \<in> fst ` set d then map fst d else map fst d @ [k])"
  by (induction d) (fastforce simp: image_iff)+


subsection \<open>The dictionary of durations\<close>

lemma distinct_duration_stats: "distinct (map fst (duration_stats_of rs))"
proof (induction rs rule: rev_induct)
  case Nil
  show ?case by simp
next
  case (snoc r rs)
  then show ?case
    by (auto simp: duration_stats_of_snoc keys_dict_set split: option.splits)
qed

lemma fst_set_dict_set: "fst ` set (dict_set k v d) = insert k (fst ` set d)"
proof -
  have "set (map fst (dict_set k v d)) = insert k (set (map fst d))"
    unfolding keys_dict_set by auto
  then show ?thesis by simp
qed

lemma keys_duration_stats:
  "fst ` set (duration_stats_of rs) = {spk. \<exists>r\<in>set rs. dominant_speaker_of r = Some spk}"
proof (induction rs rule: rev_induct)
  case Nil
  show ?case by simp
next
  case (snoc r rs)
  then show ?case
    by (auto simp: duration_stats_of_snoc fst_set_dict_set split: option.splits)
qed



lemma duration_stats_empty_iff:
  "duration_stats_of rs = [] \<longleftrightarrow> (\<forall>r\<in>set rs. dominant_speaker_of r = None)"
proof -
  have "duration_stats_of rs = [] \<longleftrightarrow> fst ` set (duration_stats_of rs) = {}"
    by simp
  also have "\<dots> \<longleftrightarrow> (\<forall>r\<in>set rs. dominant_speaker_of r = None)"
    unfolding keys_duration_stats by auto (metis not_None_eq)
  finally show ?thesis .
qed

subsection \<open>The positions of each speaker\<close>

lemma dict_set_distinct:
  "distinct (map fst d) \<Longrightarrow> map_of d k = Some v0 \<Longrightarrow>
   dict_set k v d = map (\<lambda>(k', v'). if k' = k then (k', v) else (k', v')) d"
proof (induction d)
  case Nil
  then show ?case by simp
next
  case (Cons a d)
  obtain k' v' where a: "a = (k', v')" by (cases a)
  show ?case
  proof (cases "k' = k")
    case True
    with Cons.prems a have "k \<notin> fst ` set d" by auto
    then have "map (\<lambda>(k', v'). if k' = k then (k', v) else (k', v')) d = d"
      by (intro map_idI) (auto simp: rev_image_eqI)
    with True a show ?thesis by simp
  next
    case False
    with Cons a show ?thesis by simp
  qed
qed

lemma dict_set_fresh: "k \<notin> fst ` set d \<Longrightarrow> dict_set k v d = d @ [(k, v)]"
  by (induction d) auto

lemma indices_loop_snoc:
  "indices_loop (items @ [item]) si =
     (case indices_loop items si of Inl e \<Rightarrow> Inl e | Inr si' \<Rightarrow> indices_step item si')"
  by (induction items arbitrary: si) (auto split: sum.splits)

lemma indices_of_snoc:
  "indices_of (col @ [c]) spk = indices_of col spk @ (if c = Some spk then [length col] else [])"
proof -
  have "filter (\<lambda>p. (col @ [c]) ! p = Some spk) [0..<length col] =
        filter (\<lambda>p. col ! p = Some spk) [0..<length col]"
    by (intro filter_cong) (auto simp: nth_append)
  then show ?thesis by (simp add: indices_of_def)
qed

lemma indices_of_Nil [simp]: "indices_of [] spk = []"
  by (simp add: indices_of_def)

lemma indices_loop_rows:
  assumes "distinct (map fst si)"
    and "\<forall>r\<in>set rs. \<forall>spk. dominant_speaker_of r = Some spk \<longrightarrow> spk \<in> fst ` set si"
  shows "indices_loop (iterrows rs (dominant_speaker_column rs)) si =
           Inr (map (\<lambda>(k, l). (k, l @ indices_of (dominant_speaker_column rs) k)) si)"
  using assms(2)
proof (induction rs rule: rev_induct)
  case Nil
  show ?case by (simp add: iterrows_def dominant_speaker_column_def case_prod_unfold)
next
  case (snoc r rs)
  let ?col = "dominant_speaker_column rs"
  let ?si = "map (\<lambda>(k, l). (k, l @ indices_of ?col k)) si"
  have IH: "indices_loop (iterrows rs ?col) si = Inr ?si"
    using snoc by simp
  have keys: "map fst ?si = map fst si"
    by (simp add: case_prod_unfold comp_def)
  have loop: "indices_loop (iterrows (rs @ [r]) (dominant_speaker_column (rs @ [r]))) si =
              indices_step (length rs, r, dominant_speaker_of r) ?si"
    by (simp add: dominant_speaker_column_snoc iterrows_snoc indices_loop_snoc IH
          del: indices_step.simps)
  show ?case
  proof (cases "dominant_speaker_of r")
    case None
    then show ?thesis
      unfolding loop by (simp add: dominant_speaker_column_snoc indices_of_snoc)
  next
    case (Some spk)
    then have spk: "Type r = ''speech''" "spk \<noteq> []"
      using dominant_speaker_of_Some by blast+
    from Some snoc.prems have "spk \<in> fst ` set si" by simp
    then obtain l where l: "map_of si spk = Some l"
      by (metis domD dom_map_of_conv_image_fst)
    have m: "map_of ?si spk = Some (l @ indices_of ?col spk)"
      using l by (induction si) (auto split: if_splits)
    have d: "distinct (map fst ?si)"
      using assms(1) by (simp only: keys)
    have "indices_step (length rs, r, dominant_speaker_of r) ?si =
          Inr (dict_set spk ((l @ indices_of ?col spk) @ [length rs]) ?si)"
      using Some spk m by simp
    also have "dict_set spk ((l @ indices_of ?col spk) @ [length rs]) ?si =
               map (\<lambda>(k', v'). if k' = spk then (k', (l @ indices_of ?col spk) @ [length rs])
                                else (k', v')) ?si"
      by (rule dict_set_distinct [OF d m])
    also have "\<dots> = map (\<lambda>(k, l). (k, l @ indices_of (dominant_speaker_column (rs @ [r])) k)) si"
    proof -
      have "l' = l" if "(spk, l') \<in> set si" for l'
        using map_of_is_SomeI [OF assms(1) that] l by simp
      then show ?thesis
        using Some by (auto simp: dominant_speaker_column_snoc indices_of_snoc)
    qed
    finally show ?thesis
      unfolding loop .
  qed
qed

subsection \<open>Interaction counts and the guest list\<close>

lemma dj_nearby_iff:
  "dj_nearby col dj_id idx offs \<longleftrightarrow>
     (\<exists>off\<in>set offs. 0 \<le> int idx + off \<and> int idx + off < int (length col) \<and>
        col ! nat (int idx + off) = Some dj_id)"
  by (induction offs) (auto simp: Let_def)

lemma fold_count:
  "fold (\<lambda>idx count. if P idx then count + 1 else count) indices (n::nat) =
     n + length (filter P indices)"
  by (induction indices arbitrary: n) auto

lemma count_indices_eq:
  "count_indices col dj_id indices =
     length (filter (\<lambda>idx. dj_nearby col dj_id idx offset_list) indices)"
  by (simp add: count_indices_def fold_count)

lemma fold_interaction_step:
  "distinct (map fst xs) \<Longrightarrow> fst ` set xs \<inter> fst ` set acc = {} \<Longrightarrow>
   fold (interaction_step col dj_id) xs acc =
     acc @ map (\<lambda>(spk, indices).
               (spk, if spk = dj_id then 0 else count_indices col dj_id indices)) xs"
proof (induction xs arbitrary: acc)
  case Nil
  show ?case by simp
next
  case (Cons x xs)
  obtain spk indices where x: "x = (spk, indices)" by (cases x)
  let ?v = "if spk = dj_id then 0 else count_indices col dj_id indices"
  from Cons.prems x have fresh: "spk \<notin> fst ` set acc" by auto
  have step: "interaction_step col dj_id x acc = acc @ [(spk, ?v)]"
    using fresh by (auto simp: x dict_set_fresh)
  have disj: "fst ` set xs \<inter> fst ` set (acc @ [(spk, ?v)]) = {}"
    using Cons.prems x by auto
  have dist: "distinct (map fst xs)"
    using Cons.prems(1) by simp
  have "fold (interaction_step col dj_id) (x # xs) acc =
        fold (interaction_step col dj_id) xs (interaction_step col dj_id x acc)"
    by simp
  also have "\<dots> = fold (interaction_step col dj_id) xs (acc @ [(spk, ?v)])"
    by (simp only: step)
  also have "\<dots> = (acc @ [(spk, ?v)]) @
      map (\<lambda>(spk, indices).
             (spk, if spk = dj_id then 0 else count_indices col dj_id indices)) xs"
    by (rule Cons.IH [OF dist disj])
  finally show ?case
    by (simp add: x)
qed

lemma interaction_loop_eq:
  "distinct (map fst si) \<Longrightarrow>
   interaction_loop col dj_id si =
     map (\<lambda>(spk, indices). (spk, if spk = dj_id then 0 else count_indices col dj_id indices)) si"
  by (simp add: interaction_loop_def fold_interaction_step)

lemma interaction_counts_of_eq:
  "interaction_counts_of rs dj_id =
     map (\<lambda>spk. (spk, if spk = dj_id then 0
                      else count_indices (dominant_speaker_column rs) dj_id
                             (indices_of (dominant_speaker_column rs) spk)))
       (map fst (duration_stats_of rs))"
proof -
  have "distinct (map fst (map (\<lambda>spk. (spk, indices_of (dominant_speaker_column rs) spk))
          (map fst (duration_stats_of rs))))"
    using distinct_duration_stats [of rs] by (simp add: comp_def)
  then show ?thesis
    by (simp add: interaction_counts_of_def Let_def interaction_loop_eq comp_def)
qed

lemma guest_step_fst:
  "fst (guest_step c (spk, cnt) (gl, out)) =
     (if cnt \<ge> FREE_PASS_THRESHOLD \<or> of_nat cnt \<ge> c then gl @ [spk] else gl)"
  by (simp add: Let_def)

lemma fold_guest_step:
  "fst (fold (guest_step c) cands (gl, out)) =
     gl @ map fst (filter (\<lambda>(spk, cnt). cnt \<ge> FREE_PASS_THRESHOLD \<or> of_nat cnt \<ge> c) cands)"
proof (induction cands arbitrary: gl out)
  case Nil
  show ?case by simp
next
  case (Cons x cands)
  obtain spk cnt where x: "x = (spk, cnt)" by (cases x)
  obtain gl' out' where s: "guest_step c x (gl, out) = (gl', out')"
    by (cases "guest_step c x (gl, out)")
  have gl': "gl' = (if cnt \<ge> FREE_PASS_THRESHOLD \<or> of_nat cnt \<ge> c then gl @ [spk] else gl)"
    using guest_step_fst [of c spk cnt gl out] s x by simp
  have "fst (fold (guest_step c) (x # cands) (gl, out)) = fst (fold (guest_step c) cands (gl', out'))"
    by (simp add: s del: guest_step.simps)
  also have "\<dots> = gl' @ map fst (filter (\<lambda>(spk, cnt). cnt \<ge> FREE_PASS_THRESHOLD \<or> of_nat cnt \<ge> c) cands)"
    by (rule Cons.IH)
  finally show ?case
    by (simp add: gl' x)
qed

lemma guest_list_classify:
  "fst (classify cands) =
     map fst (filter (\<lambda>(spk, cnt). cnt \<ge> FREE_PASS_THRESHOLD \<or>
                                      of_nat cnt \<ge> cutoff_of (snd (hd cands))) cands)"
proof (cases cands)
  case Nil
  then show ?thesis by (simp add: classify_def)
next
  case (Cons x rest)
  obtain spk cnt where x: "x = (spk, cnt)" by (cases x)
  show ?thesis
    unfolding classify_def Cons x
    by (simp add: Let_def fold_guest_step del: fold.simps guest_step.simps)
qed

subsection \<open>The function as a whole\<close>

lemma sorted_durations_Nil_iff [simp]: "sorted_durations_of d = [] \<longleftrightarrow> d = []"
  unfolding sorted_durations_of_def by (metis length_0_conv length_sort)

lemma calculate_empty:
  assumes "duration_stats_of (rows df) = []"
  shows "calculate_stats_multi_guest df =
           Inr \<lparr>frame = df\<lparr>Dominant_Speaker := Some (dominant_speaker_column (rows df))\<rparr>,
                printed = [], returned = []\<rparr>"
  using assms by (simp add: calculate_stats_multi_guest_def duration_stats_of_def Let_def)

lemma speaker_indices_eq:
  "indices_loop (iterrows rs (dominant_speaker_column rs))
     (map (\<lambda>spk. (spk, [])) (map fst (duration_stats_of rs))) =
   Inr (map (\<lambda>spk. (spk, indices_of (dominant_speaker_column rs) spk))
          (map fst (duration_stats_of rs)))"
proof -
  let ?si = "map (\<lambda>spk. (spk, [])) (map fst (duration_stats_of rs))"
  have keys: "map fst ?si = map fst (duration_stats_of rs)"
    by (simp add: comp_def)
  have d: "distinct (map fst ?si)"
    unfolding keys by (rule distinct_duration_stats)
  have "fst ` set ?si = fst ` set (duration_stats_of rs)"
    using keys by (metis set_map)
  then have c: "\<forall>r\<in>set rs. \<forall>spk. dominant_speaker_of r = Some spk \<longrightarrow> spk \<in> fst ` set ?si"
    unfolding keys_duration_stats by blast
  show ?thesis
    unfolding indices_loop_rows [OF d c] by (simp add: comp_def)
qed

lemma calculate_nonempty:
  assumes "sorted_durations_of (duration_stats_of (rows df)) = (dj_id, dj_duration) # rest"
  shows "calculate_stats_multi_guest df =
           Inr \<lparr>frame = df\<lparr>Dominant_Speaker := Some (dominant_speaker_column (rows df))\<rparr>,
                printed = DJ_Identified dj_id dj_duration #
                  snd (classify (candidates_of dj_id (interaction_counts_of (rows df) dj_id))),
                returned = map (result_of dj_id dj_duration (guest_list_of (rows df) dj_id)
                                  (interaction_counts_of (rows df) dj_id))
                             ((dj_id, dj_duration) # rest)\<rparr>"
proof -
  have ne: "duration_stats_of (rows df) \<noteq> []"
  proof
    assume "duration_stats_of (rows df) = []"
    then have "sorted_durations_of (duration_stats_of (rows df)) = []"
      by simp
    with assms show False by simp
  qed
  show ?thesis
    using ne assms speaker_indices_eq [of "rows df"]
    unfolding calculate_stats_multi_guest_def
    by (simp add: duration_stats_of_def [symmetric] Let_def interaction_counts_of_def
          guest_list_of_def case_prod_unfold del: result_of.simps)
qed

lemma calculate_total: "\<exists>out. calculate_stats_multi_guest df = Inr out"
proof (cases "sorted_durations_of (duration_stats_of (rows df))")
  case Nil
  then have "duration_stats_of (rows df) = []"
    by simp
  then show ?thesis using calculate_empty by blast
next
  case (Cons x rest)
  then show ?thesis using calculate_nonempty [of df "fst x" "snd x" rest] by simp
qed

subsection \<open>The sorted durations\<close>

lemma set_sorted_durations [simp]: "set (sorted_durations_of d) = set d"
  by (simp add: sorted_durations_of_def)

lemma distinct_sorted_durations:
  "distinct (map fst d) \<Longrightarrow> distinct (map fst (sorted_durations_of d))"
proof -
  assume "distinct (map fst d)"
  then have "distinct d" and "inj_on fst (set d)"
    by (simp_all add: distinct_map)
  then show ?thesis
    by (simp add: distinct_map sorted_durations_of_def)
qed






subsection \<open>The records of the result\<close>

lemma returned_cases:
  assumes "calculate_stats_multi_guest df = Inr out"
  obtains (empty) "duration_stats_of (rows df) = []" "returned out = []" "printed out = []"
  | (host) dj_id dj_duration rest where
      "sorted_durations_of (duration_stats_of (rows df)) = (dj_id, dj_duration) # rest"
      "returned out = map (result_of dj_id dj_duration (guest_list_of (rows df) dj_id)
                             (interaction_counts_of (rows df) dj_id))
                        ((dj_id, dj_duration) # rest)"
proof (cases "sorted_durations_of (duration_stats_of (rows df))")
  case Nil
  then have e: "duration_stats_of (rows df) = []"
    by simp
  with assms calculate_empty [OF e] empty show ?thesis
    by auto
next
  case (Cons x rest)
  obtain k v where x: "x = (k, v)" by (cases x)
  from Cons x assms calculate_nonempty [of df k v rest] host [of k v rest] show ?thesis
    by auto
qed

lemma Role_result_of:
  "Role (result_of dj_id dj_duration gl ic (spk, total_dur)) = ''DJ'' \<longleftrightarrow> spk = dj_id"
  by (simp add: Let_def)

lemma Speaker_result_of [simp]:
  "Speaker (result_of dj_id dj_duration gl ic (spk, total_dur)) = spk"
  by (simp add: Let_def)

lemma Interaction_Count_result_of:
  "Interaction_Count (result_of dj_id dj_duration gl ic (spk, total_dur)) = dict_get ic spk 0"
  by (simp add: Let_def)



lemma map_of_map_key:
  "map_of (map (\<lambda>k. (k, g k)) ks) k = (if k \<in> set ks then Some (g k) else None)"
  by (induction ks) auto

lemma map_of_interaction_counts:
  "map_of (interaction_counts_of rs dj_id) spk =
     (if spk \<in> fst ` set (duration_stats_of rs)
      then Some (if spk = dj_id then 0
                 else count_indices (dominant_speaker_column rs) dj_id
                        (indices_of (dominant_speaker_column rs) spk))
      else None)"
  unfolding interaction_counts_of_eq map_of_map_key by simp

lemma dict_get_interaction_counts:
  "dict_get (interaction_counts_of rs dj_id) spk 0 =
     (if spk \<in> fst ` set (duration_stats_of rs) \<and> spk \<noteq> dj_id
      then count_indices (dominant_speaker_column rs) dj_id
             (indices_of (dominant_speaker_column rs) spk)
      else 0)"
  by (simp add: dict_get_def map_of_interaction_counts)

subsection \<open>The place of the DJ in the sorted durations\<close>

lemma host_first_only:
  assumes "sorted_durations_of (duration_stats_of rs) = (dj_id, dj_duration) # rest"
  shows "dj_id \<notin> fst ` set rest"
proof -
  have "distinct (map fst (sorted_durations_of (duration_stats_of rs)))"
    by (rule distinct_sorted_durations) (rule distinct_duration_stats)
  then show ?thesis
    unfolding assms by simp
qed

lemma filter_DJ_rest:
  assumes "dj_id \<notin> fst ` set rest"
  shows "filter (\<lambda>r. Role r = ''DJ'') (map (result_of dj_id dj_duration gl ic) rest) = []"
proof -
  have "Role (result_of dj_id dj_duration gl ic x) \<noteq> ''DJ''" if "x \<in> set rest" for x
  proof -
    obtain spk total_dur where x: "x = (spk, total_dur)" by (cases x)
    with that assms have "spk \<noteq> dj_id" by force
    then show ?thesis
      unfolding x Role_result_of by simp
  qed
  then show ?thesis
    by (simp add: filter_empty_conv del: result_of.simps)
qed

subsection \<open>The ratio to the DJ\<close>




subsection \<open>The values of the dictionary of durations\<close>


subsection \<open>The keys in the order of their first rows\<close>



subsection \<open>Counting the rows near the DJ\<close>

lemma length_filter_card:
  "length (filter P [0..<n]) = card {p. p < n \<and> P p}"
proof -
  have "distinct (filter P [0..<n])" by simp
  then have "length (filter P [0..<n]) = card (set (filter P [0..<n]))"
    by (simp only: distinct_card)
  also have "set (filter P [0..<n]) = {p. p < n \<and> P p}"
    by auto
  finally show ?thesis .
qed

lemma count_indices_card:
  "count_indices col dj_id (indices_of col spk) =
     card {p. p < length col \<and> col ! p = Some spk \<and>
              (\<exists>off\<in>{-3, -2, -1, 1, 2, 3}.
                 0 \<le> int p + off \<and> int p + off < int (length col) \<and>
                 col ! nat (int p + off) = Some dj_id)}"
proof -
  have "count_indices col dj_id (indices_of col spk) =
        length (filter (\<lambda>p. col ! p = Some spk \<and> dj_nearby col dj_id p offset_list) [0..<length col])"
    by (simp add: count_indices_eq indices_of_def conj_commute)
  also have "\<dots> = card {p. p < length col \<and> col ! p = Some spk \<and> dj_nearby col dj_id p offset_list}"
    by (simp only: length_filter_card)
  also have "\<dots> = card {p. p < length col \<and> col ! p = Some spk \<and>
              (\<exists>off\<in>{-3, -2, -1, 1, 2, 3}.
                 0 \<le> int p + off \<and> int p + off < int (length col) \<and>
                 col ! nat (int p + off) = Some dj_id)}"
    unfolding dj_nearby_iff by (simp add: offset_list_def)
  finally show ?thesis .
qed

lemma column_positions:
  "{p. p < length (dominant_speaker_column rs) \<and> dominant_speaker_column rs ! p = Some spk \<and>
       (\<exists>off\<in>{-3, -2, -1, 1, 2, 3}.
          0 \<le> int p + off \<and> int p + off < int (length (dominant_speaker_column rs)) \<and>
          dominant_speaker_column rs ! nat (int p + off) = Some dj_id)} =
   {p. p < length rs \<and> Type (rs ! p) = ''speech'' \<and>
       get_dominant_speaker (Speakers (rs ! p)) = Some spk \<and>
       (\<exists>off\<in>{-3, -2, -1, 1, 2, 3}.
          0 \<le> int p + off \<and> int p + off < int (length rs) \<and>
          dominant_speaker_of (rs ! nat (int p + off)) = Some dj_id)}"
proof -
  have label: "dominant_speaker_column rs ! p = Some spk \<longleftrightarrow>
        Type (rs ! p) = ''speech'' \<and> get_dominant_speaker (Speakers (rs ! p)) = Some spk"
    if "p < length rs" for p
    using that by (simp add: dominant_speaker_column_def dominant_speaker_of_def)
  have near: "dominant_speaker_column rs ! nat (int p + off) = Some dj_id \<longleftrightarrow>
        dominant_speaker_of (rs ! nat (int p + off)) = Some dj_id"
    if "0 \<le> int p + off" "int p + off < int (length rs)" for p off
  proof -
    from that have "nat (int p + off) < length rs" by simp
    then show ?thesis by (simp add: dominant_speaker_column_def)
  qed
  show ?thesis
    using label near by (simp only: length_dominant_speaker_column) blast
qed

subsection \<open>A record of the result and its entry\<close>

lemma returned_record:
  assumes "calculate_stats_multi_guest df = Inr out" and "r \<in> set (returned out)"
  obtains dj_id dj_duration rest spk total_dur where
    "sorted_durations_of (duration_stats_of (rows df)) = (dj_id, dj_duration) # rest"
    "returned out = map (result_of dj_id dj_duration (guest_list_of (rows df) dj_id)
                           (interaction_counts_of (rows df) dj_id))
                      ((dj_id, dj_duration) # rest)"
    "(spk, total_dur) \<in> set (duration_stats_of (rows df))"
    "r = result_of dj_id dj_duration (guest_list_of (rows df) dj_id)
           (interaction_counts_of (rows df) dj_id) (spk, total_dur)"
  using assms(1)
proof (cases rule: returned_cases)
  case empty
  with assms(2) show ?thesis by simp
next
  case (host dj_id dj_duration rest)
  let ?R = "result_of dj_id dj_duration (guest_list_of (rows df) dj_id)
              (interaction_counts_of (rows df) dj_id)"
  from assms(2) obtain x where x: "x \<in> set ((dj_id, dj_duration) # rest)" "r = ?R x"
    unfolding host(2) by (auto simp del: result_of.simps)
  obtain spk total_dur where p: "x = (spk, total_dur)" by (cases x)
  have "x \<in> set (duration_stats_of (rows df))"
    using x(1) host(1) by (metis set_sorted_durations)
  with that [OF host(1) host(2), of spk total_dur] x(2) p show ?thesis
    by simp
qed

subsection \<open>The candidates\<close>

lemma keys_interaction_counts:
  "map fst (interaction_counts_of rs dj_id) = map fst (duration_stats_of rs)"
  by (simp add: interaction_counts_of_eq comp_def)

lemma mem_interaction_counts:
  "(s, c) \<in> set (interaction_counts_of rs dj_id) \<longleftrightarrow>
     s \<in> fst ` set (duration_stats_of rs) \<and> c = dict_get (interaction_counts_of rs dj_id) s 0"
proof -
  have "distinct (map fst (interaction_counts_of rs dj_id))"
    unfolding keys_interaction_counts by (rule distinct_duration_stats)
  then have "(s, c) \<in> set (interaction_counts_of rs dj_id) \<longleftrightarrow>
             map_of (interaction_counts_of rs dj_id) s = Some c"
    by simp
  also have "\<dots> \<longleftrightarrow> s \<in> fst ` set (duration_stats_of rs) \<and>
                        c = dict_get (interaction_counts_of rs dj_id) s 0"
    by (auto simp: dict_get_def map_of_interaction_counts)
  finally show ?thesis .
qed

lemma set_candidates:
  "set (candidates_of dj_id ic) = {x \<in> set ic. fst x \<noteq> dj_id}"
  by (auto simp: candidates_of_def)

lemma candidates_head_max:
  assumes "candidates_of dj_id ic = x # rest" and "y \<in> set (x # rest)"
  shows "snd y \<le> snd x"
proof -
  let ?f = "\<lambda>x::string \<times> nat. - int (snd x)"
  have "sorted (map ?f (candidates_of dj_id ic))"
    unfolding candidates_of_def by (rule sorted_sort_key)
  then have "\<forall>z\<in>set (x # rest). ?f x \<le> ?f z"
    unfolding assms(1) by auto
  with assms(2) have "?f x \<le> ?f y" by blast
  then show ?thesis by simp
qed

lemma Role_result_guest:
  "spk \<noteq> dj_id \<Longrightarrow>
   Role (result_of dj_id dj_duration gl ic (spk, total_dur)) =
     (if spk \<in> set gl then ''GUEST'' else ''AD_SPEAKER'')"
  by (simp add: Let_def)

lemma cutoff_of_eq: "cutoff_of n = max 12 (of_nat n * (2 / 10))"
  by (simp add: cutoff_of_def MIN_ABSOLUTE_THRESHOLD_def RELATIVE_RATIO_def)

lemma in_map_fst_filter:
  "s \<in> set (map fst (filter (\<lambda>(s, c). Q c) xs)) \<longleftrightarrow> (\<exists>c. (s, c) \<in> set xs \<and> Q c)"
  by (induction xs) auto

subsection \<open>Searching a text for the pattern\<close>

lemma takeWhile_append_stop: "\<not> P y \<Longrightarrow> takeWhile P (xs @ y # ys) = takeWhile P xs"
  by (induction xs) auto

lemma not_digit_S: "\<not> is_digit CHR ''S''"
  by (simp add: is_digit_def)

lemma literal_only_S_first:
  assumes "take 8 (xs @ CHR ''S'' # ys) = ''SPEAKER_''" and "xs \<noteq> []"
  shows "8 \<le> length xs"
proof (rule ccontr)
  assume "\<not> 8 \<le> length xs"
  then have n: "length xs < 8" by simp
  have "take 8 (xs @ CHR ''S'' # ys) ! length xs = (xs @ CHR ''S'' # ys) ! length xs"
    using n by (rule nth_take)
  then have "''SPEAKER_'' ! length xs = CHR ''S''"
    unfolding assms(1) by (simp only: nth_append_length)
  moreover have "0 < length xs" using assms(2) by simp
  ultimately show False
    using n by (cases "length xs" rule: nat.exhaust; simp add: nth_Cons split: nat.splits)
qed

lemma match_here_before_S:
  assumes "xs \<noteq> []"
  shows "match_here (xs @ CHR ''S'' # ys) = match_here xs"
proof (cases "take 8 (xs @ CHR ''S'' # ys) = ''SPEAKER_''")
  case True
  then have len: "8 \<le> length xs"
    using assms by (rule literal_only_S_first)
  then have "drop 8 (xs @ CHR ''S'' # ys) = drop 8 xs @ CHR ''S'' # ys"
    and "take 8 (xs @ CHR ''S'' # ys) = take 8 xs"
    by simp_all
  then show ?thesis
    by (simp add: match_here_def takeWhile_append_stop not_digit_S)
next
  case False
  have "take 8 xs \<noteq> ''SPEAKER_''"
  proof
    assume t: "take 8 xs = ''SPEAKER_''"
    then have "length (take 8 xs) = 8" by simp
    then have "8 \<le> length xs" by simp
    then have "take 8 (xs @ CHR ''S'' # ys) = take 8 xs" by simp
    with t False show False by simp
  qed
  with False show ?thesis
    by (simp add: match_here_def)
qed

lemma re_search_before_label:
  "re_search (pre @ ''SPEAKER_07'' @ post) =
     (case re_search pre of
        Some m \<Rightarrow> Some m
      | None \<Rightarrow> Some (''SPEAKER_07'' @ takeWhile is_digit post))"
proof (induction pre)
  case Nil
  show ?case
    by (simp add: match_here_def is_digit_def)
next
  case (Cons c cs)
  have "match_here ((c # cs) @ ''SPEAKER_07'' @ post) = match_here (c # cs)"
    using match_here_before_S [of "c # cs" "''PEAKER_07'' @ post"] by simp
  with Cons show ?case
    by (simp split: option.splits)
qed

subsection \<open>The examples, evaluated\<close>


lemma scenario_table:
  "map_sum id returned (calculate_stats_multi_guest scenario) = Inr scenario_computed"
  by code_simp


lemma talk_table:
  "map_sum id returned (calculate_stats_multi_guest talk) = Inr talk_computed"
  by code_simp

section \<open>The claims of the specification\<close>

subsection \<open>Guest or other\<close>

text \<open>
  Claim C1: for every input and every record of the result that is not the DJ's, let the
  top count be the largest interaction count among the records that are not the DJ's and
  the cutoff the larger of 12 and 0.2 times the top count; then the record has the role
  GUEST if and only if its interaction count is at least 20 or at least the cutoff, and
  otherwise it has the role AD\_SPEAKER.
\<close>

theorem guest_threshold:
  assumes "calculate_stats_multi_guest df = Inr out"
    and "r \<in> set (returned out)" and "Role r \<noteq> ''DJ''"
  shows "(Role r = ''GUEST'' \<longleftrightarrow>
            20 \<le> Interaction_Count r \<or>
            max (12::rat)
              (of_nat (Max (Interaction_Count ` {c \<in> set (returned out). Role c \<noteq> ''DJ''})) *
               (2 / 10))
              \<le> of_nat (Interaction_Count r)) \<and>
         (Role r \<noteq> ''GUEST'' \<longrightarrow> Role r = ''AD_SPEAKER'')"
  using assms(1,2)
proof (cases rule: returned_record)
  case (1 dj_id dj_duration rest spk total_dur)
  let ?rs = "rows df"
  let ?ic = "interaction_counts_of ?rs dj_id"
  let ?gl = "guest_list_of ?rs dj_id"
  let ?cands = "candidates_of dj_id ?ic"
  let ?R = "result_of dj_id dj_duration ?gl ?ic"
  let ?g = "\<lambda>s. dict_get ?ic s 0"
  let ?others = "{c \<in> set (returned out). Role c \<noteq> ''DJ''}"
  have sorted_set: "set ((dj_id, dj_duration) # rest) = set (duration_stats_of ?rs)"
    using 1(1) by (metis set_sorted_durations)
  have spk: "spk \<noteq> dj_id"
    using assms(3) unfolding 1(4) Role_result_of by simp
  have key: "spk \<in> fst ` set (duration_stats_of ?rs)"
    using 1(3) by force
  have count: "Interaction_Count r = ?g spk"
    unfolding 1(4) by (rule Interaction_Count_result_of)
  have role: "Role r = (if spk \<in> set ?gl then ''GUEST'' else ''AD_SPEAKER'')"
    unfolding 1(4) using spk by (rule Role_result_guest)
  have cand: "(s, c) \<in> set ?cands \<longleftrightarrow>
                s \<in> fst ` set (duration_stats_of ?rs) \<and> s \<noteq> dj_id \<and> c = ?g s" for s c
    unfolding set_candidates using mem_interaction_counts [of s c ?rs dj_id] by auto
  have mine: "(spk, ?g spk) \<in> set ?cands"
    unfolding cand using key spk by simp
  then obtain x rest' where c: "?cands = x # rest'"
    by (cases ?cands) auto
  have img: "snd ` set ?cands = Interaction_Count ` ?others"
  proof (intro equalityI subsetI)
    fix n
    assume "n \<in> snd ` set ?cands"
    then obtain s where s: "(s, n) \<in> set ?cands" by auto
    then have s': "s \<in> fst ` set (duration_stats_of ?rs)" "s \<noteq> dj_id" "n = ?g s"
      unfolding cand by simp_all
    then obtain t where "(s, t) \<in> set ((dj_id, dj_duration) # rest)"
      unfolding sorted_set by auto
    then have "?R (s, t) \<in> set (returned out)"
      unfolding 1(2) by (simp del: result_of.simps) blast
    moreover have "Role (?R (s, t)) \<noteq> ''DJ''"
      unfolding Role_result_of using s'(2) .
    moreover have "Interaction_Count (?R (s, t)) = n"
      unfolding Interaction_Count_result_of s'(3) ..
    ultimately show "n \<in> Interaction_Count ` ?others"
      by blast
  next
    fix n
    assume "n \<in> Interaction_Count ` ?others"
    then obtain c' where c': "c' \<in> set (returned out)" "Role c' \<noteq> ''DJ''"
      "n = Interaction_Count c'" by auto
    from c'(1) obtain y where y: "y \<in> set ((dj_id, dj_duration) # rest)" "c' = ?R y"
      unfolding 1(2) by (auto simp del: result_of.simps)
    obtain s t where st: "y = (s, t)" by (cases y)
    have "s \<noteq> dj_id"
      using c'(2) unfolding y(2) st Role_result_of .
    moreover have "s \<in> fst ` set (duration_stats_of ?rs)"
      using y(1) unfolding sorted_set st by force
    moreover have "n = ?g s"
      unfolding c'(3) y(2) st by (rule Interaction_Count_result_of)
    ultimately have "(s, n) \<in> set ?cands"
      unfolding cand by simp
    then show "n \<in> snd ` set ?cands"
      by force
  qed
  have "Max (snd ` set ?cands) = snd x"
  proof (rule Max_eqI)
    show "finite (snd ` set ?cands)" by simp
    show "snd x \<in> snd ` set ?cands" unfolding c by simp
    fix n
    assume "n \<in> snd ` set ?cands"
    then have "n \<in> snd ` set (x # rest')"
      unfolding c .
    then obtain y where "y \<in> set (x # rest')" "n = snd y"
      by blast
    then show "n \<le> snd x"
      using candidates_head_max [OF c] by simp
  qed
  then have top: "snd (hd ?cands) = Max (Interaction_Count ` ?others)"
    unfolding img [symmetric] c by simp
  let ?cutoff = "cutoff_of (snd (hd ?cands))"
  have "spk \<in> set ?gl \<longleftrightarrow>
        (\<exists>n. (spk, n) \<in> set ?cands \<and> (FREE_PASS_THRESHOLD \<le> n \<or> ?cutoff \<le> of_nat n))"
    unfolding guest_list_of_def guest_list_classify by (rule in_map_fst_filter)
  also have "\<dots> \<longleftrightarrow> FREE_PASS_THRESHOLD \<le> ?g spk \<or> ?cutoff \<le> of_nat (?g spk)"
  proof -
    have "n = ?g spk" if "(spk, n) \<in> set ?cands" for n
      using that unfolding cand by simp
    with mine show ?thesis by metis
  qed
  finally have guest: "spk \<in> set ?gl \<longleftrightarrow>
      20 \<le> Interaction_Count r \<or>
      max (12::rat) (of_nat (Max (Interaction_Count ` ?others)) * (2 / 10))
        \<le> of_nat (Interaction_Count r)"
    unfolding top cutoff_of_eq count FREE_PASS_THRESHOLD_def .
  show ?thesis
    unfolding role guest [symmetric] by simp
qed

theorem guest_threshold_witness:
  "\<exists>out. calculate_stats_multi_guest talk = Inr out \<and> returned out = talk_computed \<and>
         Role (talk_computed ! 1) = ''GUEST'' \<and> Interaction_Count (talk_computed ! 1) = 12 \<and>
         Role (talk_computed ! 2) = ''AD_SPEAKER'' \<and> Interaction_Count (talk_computed ! 2) = 1 \<and>
         max (12::rat)
           (of_nat (Max (Interaction_Count ` {c \<in> set (returned out). Role c \<noteq> ''DJ''})) *
            (2 / 10)) \<le> 12 \<and>
         \<not> max (12::rat)
           (of_nat (Max (Interaction_Count ` {c \<in> set (returned out). Role c \<noteq> ''DJ''})) *
            (2 / 10)) \<le> 1"
proof -
  obtain out where out: "calculate_stats_multi_guest talk = Inr out"
    using calculate_total by blast
  have ret: "returned out = talk_computed"
    using talk_table out by simp
  have g: "talk_computed ! 1 \<in> set (returned out)" "Role (talk_computed ! 1) \<noteq> ''DJ''"
    "Role (talk_computed ! 1) = ''GUEST''" "Interaction_Count (talk_computed ! 1) = 12"
    unfolding ret by (simp_all add: talk_computed_def)
  have a: "talk_computed ! 2 \<in> set (returned out)" "Role (talk_computed ! 2) \<noteq> ''DJ''"
    "Role (talk_computed ! 2) = ''AD_SPEAKER''" "Interaction_Count (talk_computed ! 2) = 1"
    unfolding ret by (simp_all add: talk_computed_def)
  have "{c \<in> set (returned out). Role c \<noteq> ''DJ''} =
        set (filter (\<lambda>c. Role c \<noteq> ''DJ'') talk_computed)"
    unfolding ret by simp
  also have "\<dots> = {talk_computed ! 1, talk_computed ! 2}"
    by (simp add: talk_computed_def)
  finally have "Max (Interaction_Count ` {c \<in> set (returned out). Role c \<noteq> ''DJ''}) = 12"
    by (simp add: talk_computed_def)
  then have top: "max (12::rat)
      (of_nat (Max (Interaction_Count ` {c \<in> set (returned out). Role c \<noteq> ''DJ''})) *
       (2 / 10)) = 12"
    by simp
  have "max (12::rat)
      (of_nat (Max (Interaction_Count ` {c \<in> set (returned out). Role c \<noteq> ''DJ''})) *
       (2 / 10)) \<le> 12"
    using guest_threshold [OF out g(1) g(2)] g(3,4) by simp
  then show ?thesis
    using out ret g(3,4) a(3,4) top by simp
qed

subsection \<open>What the interaction count counts\<close>

text \<open>
  Claim C2: for every input and every record of the result that is not the DJ's, the
  table begins with the record of the DJ, and the interaction count of the record is the
  number of positions \<open>p\<close> such that the row at \<open>p\<close> is a speech row with the label of the
  record and at least one of the positions \<open>p-3\<close>, \<open>p-2\<close>, \<open>p-1\<close>, \<open>p+1\<close>, \<open>p+2\<close>, \<open>p+3\<close>
  within the bounds of the frame holds a row whose extracted label is the DJ's. Each
  such position counts once, however many of its neighbours are rows of the DJ.
\<close>

theorem interaction_count_counts:
  assumes "calculate_stats_multi_guest df = Inr out"
    and "r \<in> set (returned out)" and "Role r \<noteq> ''DJ''"
  shows "Role (hd (returned out)) = ''DJ'' \<and>
         Interaction_Count r =
           card {p. p < length (rows df) \<and> Type (rows df ! p) = ''speech'' \<and>
                    get_dominant_speaker (Speakers (rows df ! p)) = Some (Speaker r) \<and>
                    (\<exists>off\<in>{-3, -2, -1, 1, 2, 3}.
                       0 \<le> int p + off \<and> int p + off < int (length (rows df)) \<and>
                       dominant_speaker_of (rows df ! nat (int p + off)) =
                         Some (Speaker (hd (returned out))))}"
  using assms(1,2)
proof (cases rule: returned_record)
  case (1 dj_id dj_duration rest spk total_dur)
  let ?col = "dominant_speaker_column (rows df)"
  have hd: "Role (hd (returned out)) = ''DJ''" "Speaker (hd (returned out)) = dj_id"
    unfolding 1(2) by (simp_all add: Let_def)
  have spk: "spk \<noteq> dj_id" "Speaker r = spk"
    using assms(3) unfolding 1(4) Role_result_of by simp_all
  have key: "spk \<in> fst ` set (duration_stats_of (rows df))"
    using 1(3) by force
  have "Interaction_Count r = count_indices ?col dj_id (indices_of ?col spk)"
    unfolding 1(4) Interaction_Count_result_of dict_get_interaction_counts
    using spk(1) key by simp
  also have "\<dots> =
      card {p. p < length (rows df) \<and> Type (rows df ! p) = ''speech'' \<and>
               get_dominant_speaker (Speakers (rows df ! p)) = Some spk \<and>
               (\<exists>off\<in>{-3, -2, -1, 1, 2, 3}.
                  0 \<le> int p + off \<and> int p + off < int (length (rows df)) \<and>
                  dominant_speaker_of (rows df ! nat (int p + off)) = Some dj_id)}"
    unfolding count_indices_card column_positions ..
  finally show ?thesis
    using hd spk(2) by simp
qed

theorem interaction_count_counts_witness:
  "\<exists>out. calculate_stats_multi_guest scenario = Inr out \<and>
         scenario_computed ! 1 \<in> set (returned out) \<and>
         Interaction_Count (scenario_computed ! 1) = 2 \<and>
         card {p. p < length (rows scenario) \<and> Type (rows scenario ! p) = ''speech'' \<and>
                  get_dominant_speaker (Speakers (rows scenario ! p)) = Some ''SPEAKER_01'' \<and>
                  (\<exists>off\<in>{-3, -2, -1, 1, 2, 3}.
                     0 \<le> int p + off \<and> int p + off < int (length (rows scenario)) \<and>
                     dominant_speaker_of (rows scenario ! nat (int p + off)) =
                       Some ''SPEAKER_00'')} = 2"
proof -
  obtain out where out: "calculate_stats_multi_guest scenario = Inr out"
    using calculate_total by blast
  have ret: "returned out = scenario_computed"
    using scenario_table out by simp
  have r: "scenario_computed ! 1 \<in> set (returned out)"
    "Role (scenario_computed ! 1) \<noteq> ''DJ''"
    "Interaction_Count (scenario_computed ! 1) = 2"
    "Speaker (scenario_computed ! 1) = ''SPEAKER_01''"
    "Speaker (hd (returned out)) = ''SPEAKER_00''"
    unfolding ret by (simp_all add: scenario_computed_def)
  from interaction_count_counts [OF out r(1) r(2)] out r show ?thesis
    by simp
qed

subsection \<open>The end-to-end scenario\<close>

text \<open>
  Claim C3, as the specification states it: on the scenario the returned table is
  A as DJ with total duration 40 and ratio 100.0\%, then B as AD\_SPEAKER with duration 2,
  ratio 5.0\% and 2 interactions, then C as AD\_SPEAKER with duration 1, ratio 2.5\% and
  1 interaction. The function does not return this table: A speaks in seven segments of
  5 seconds.
\<close>

theorem scenario_expected_not_returned:
  "map_sum id returned (calculate_stats_multi_guest scenario) \<noteq> Inr scenario_expected"
  by code_simp

text \<open>
  Claim C3, amended: on the scenario the function prints A as the DJ with duration 35,
  B as the benchmark with 2 interactions, the cutoff 12 and both B and C as below it,
  and it returns A as DJ with total duration 35, ratio 100.0\% and no interaction, then
  B as AD\_SPEAKER with duration 2, ratio 5.7\% and 2 interactions, then C as AD\_SPEAKER
  with duration 1, ratio 2.9\% and 1 interaction.
\<close>

theorem scenario_returned:
  "map_sum id returned (calculate_stats_multi_guest scenario) = Inr scenario_computed \<and>
   map_sum id printed (calculate_stats_multi_guest scenario) =
     Inr [DJ_Identified ''SPEAKER_00'' 35, Analysis_Header, Benchmark ''SPEAKER_01'' 2,
          Cutoff_Line 12 20, Ad_Line ''SPEAKER_01'' 2, Ad_Line ''SPEAKER_02'' 1]"
  by code_simp

subsection \<open>The label of a text that holds SPEAKER\_07\<close>

text \<open>
  Claim C4, as the specification states it: for every speech row whose field
  \<^verbatim>\<open>Speakers\<close> is a text that holds \<^verbatim>\<open>SPEAKER_07\<close> amid other text, the extractor returns
  exactly \<^verbatim>\<open>SPEAKER_07\<close>. It fails when a label stands earlier in the text (the search
  returns the leftmost match) and when a digit follows the occurrence (the digits are
  matched greedily).
\<close>

theorem label_within_text_counterexample:
  "dominant_speaker_of (speech ''SPEAKER_01, SPEAKER_07'' 1) = Some ''SPEAKER_01'' \<and>
   dominant_speaker_of (speech ''with SPEAKER_071 today'' 1) = Some ''SPEAKER_071''"
  by code_simp

text \<open>
  Claim C4, amended: for every speech row whose field \<^verbatim>\<open>Speakers\<close> is a text
  \<open>pre @ ''SPEAKER_07'' @ post\<close>, where the search finds no label in \<open>pre\<close> and \<open>post\<close> does
  not begin with a digit, the extractor returns exactly \<^verbatim>\<open>SPEAKER_07\<close>.
\<close>

theorem label_within_text:
  assumes "re_search pre = None" and "post = [] \<or> \<not> is_digit (hd post)"
  shows "dominant_speaker_of
           \<lparr>Type = ''speech'', Speakers = Text (pre @ ''SPEAKER_07'' @ post), Duration = d\<rparr> =
         Some ''SPEAKER_07''"
proof -
  have "takeWhile is_digit post = []"
    using assms(2) by (cases post) auto
  then have "re_search (pre @ ''SPEAKER_07'' @ post) = Some ''SPEAKER_07''"
    unfolding re_search_before_label using assms(1) by simp
  then show ?thesis
    by (simp add: dominant_speaker_of_def)
qed

theorem label_within_text_witness:
  "re_search ''guests: '' = None \<and>
   dominant_speaker_of
     \<lparr>Type = ''speech'', Speakers = Text (''guests: '' @ ''SPEAKER_07'' @ '' (studio)''),
      Duration = 3\<rparr> = Some ''SPEAKER_07''"
proof -
  have h1: "re_search ''guests: '' = None"
    by code_simp
  have h2: "'' (studio)'' = [] \<or> \<not> is_digit (hd '' (studio)'')"
    by (simp add: is_digit_def)
  show ?thesis
    using h1 label_within_text [OF h1 h2, of 3] by simp
qed

subsection \<open>What the call does to the frame it is given\<close>

text \<open>
  Claim C5, as the specification states it: running the classification leaves the input
  unchanged, with the same rows, the same fields and the same order before and after.
  The function assigns to \<^verbatim>\<open>df['Dominant_Speaker']\<close>: the frame of the caller has this
  column afterwards.
\<close>

theorem frame_changed_counterexample:
  "map_sum id frame (calculate_stats_multi_guest (loaded [speech ''SPEAKER_07'' 1])) \<noteq>
     Inr (loaded [speech ''SPEAKER_07'' 1])"
  by code_simp

text \<open>
  Claim C5, amended: for every input the call returns, and the frame is then the input
  with the column \<^verbatim>\<open>Dominant_Speaker\<close> set to the extracted labels (added, or overwritten
  if the input had it); the rows, with their fields \<^verbatim>\<open>Type\<close>, \<^verbatim>\<open>Speakers\<close> and
  \<^verbatim>\<open>Duration\<close> and their order, are those of the input.
\<close>

theorem frame_after_call:
  "\<exists>out. calculate_stats_multi_guest df = Inr out \<and>
         frame out = df\<lparr>Dominant_Speaker := Some (dominant_speaker_column (rows df))\<rparr> \<and>
         rows (frame out) = rows df"
proof (cases "sorted_durations_of (duration_stats_of (rows df))")
  case Nil
  then have "duration_stats_of (rows df) = []"
    by simp
  then show ?thesis
    by (simp add: calculate_empty)
next
  case (Cons x rest)
  then show ?thesis
    using calculate_nonempty [of df "fst x" "snd x" rest] by simp
qed

subsection \<open>One DJ, without interactions\<close>

text \<open>
  Claim C6: for every input the call returns a table with at most one record of role DJ
  (exactly one unless the table is empty), and a record of role DJ has the
  interaction count 0.
\<close>

theorem one_host_without_interactions:
  "\<exists>out. calculate_stats_multi_guest df = Inr out \<and>
         length (filter (\<lambda>r. Role r = ''DJ'') (returned out)) \<le> 1 \<and>
         (returned out \<noteq> [] \<longrightarrow> length (filter (\<lambda>r. Role r = ''DJ'') (returned out)) = 1) \<and>
         (\<forall>r\<in>set (returned out). Role r = ''DJ'' \<longrightarrow> Interaction_Count r = 0)"
proof -
  obtain out where out: "calculate_stats_multi_guest df = Inr out"
    using calculate_total by blast
  from out show ?thesis
  proof (cases rule: returned_cases)
    case empty
    with out show ?thesis by simp
  next
    case (host dj_id dj_duration rest)
    let ?R = "result_of dj_id dj_duration (guest_list_of (rows df) dj_id)
                (interaction_counts_of (rows df) dj_id)"
    have rest: "filter (\<lambda>r. Role r = ''DJ'') (map ?R rest) = []"
      using host_first_only [OF host(1)] by (rule filter_DJ_rest)
    have one: "filter (\<lambda>r. Role r = ''DJ'') (returned out) = [?R (dj_id, dj_duration)]"
      unfolding host(2) using rest Role_result_of by (simp del: result_of.simps)
    have "Interaction_Count r = 0" if "r \<in> set (returned out)" "Role r = ''DJ''" for r
    proof -
      from that have "r \<in> set (filter (\<lambda>r. Role r = ''DJ'') (returned out))" by simp
      then have "r = ?R (dj_id, dj_duration)" unfolding one by simp
      then have "Interaction_Count r = dict_get (interaction_counts_of (rows df) dj_id) dj_id 0"
        by (simp only: Interaction_Count_result_of)
      also have "\<dots> = 0"
        by (simp add: dict_get_interaction_counts)
      finally show ?thesis .
    qed
    with out one show ?thesis by auto
  qed
qed

theorem one_host_without_interactions_witness:
  "\<exists>out r. calculate_stats_multi_guest scenario = Inr out \<and> r \<in> set (returned out) \<and>
           Role r = ''DJ'' \<and> Interaction_Count r = 0 \<and>
           length (filter (\<lambda>r. Role r = ''DJ'') (returned out)) = 1"
proof -
  obtain out where out: "calculate_stats_multi_guest scenario = Inr out"
    and one: "returned out \<noteq> [] \<longrightarrow> length (filter (\<lambda>r. Role r = ''DJ'') (returned out)) = 1"
    and zero: "\<forall>r\<in>set (returned out). Role r = ''DJ'' \<longrightarrow> Interaction_Count r = 0"
    using one_host_without_interactions [of scenario] by blast
  have ret: "returned out = scenario_computed"
    using scenario_table out by simp
  have "hd scenario_computed \<in> set (returned out)" "Role (hd scenario_computed) = ''DJ''"
    unfolding ret by (simp_all add: scenario_computed_def)
  moreover have "returned out \<noteq> []"
    unfolding ret by (simp add: scenario_computed_def)
  ultimately show ?thesis
    using out one zero by blast
qed

subsection \<open>The durations add up\<close>



subsection \<open>No label at all\<close>

text \<open>
  Claim C8: for every input in which no speech row yields a label, the dictionary of
  durations is empty and the call returns the empty table instead of raising; it selects
  no DJ and classifies nobody, so that it prints nothing.
\<close>

theorem no_label_empty_result:
  assumes "\<forall>r\<in>set (rows df). Type r = ''speech'' \<longrightarrow> get_dominant_speaker (Speakers r) = None"
  shows "duration_stats_of (rows df) = [] \<and>
         calculate_stats_multi_guest df =
           Inr \<lparr>frame = df\<lparr>Dominant_Speaker := Some (dominant_speaker_column (rows df))\<rparr>,
                printed = [], returned = []\<rparr>"
proof -
  have "\<forall>r\<in>set (rows df). dominant_speaker_of r = None"
    using assms by (simp add: dominant_speaker_of_def)
  then have "duration_stats_of (rows df) = []"
    by (simp add: duration_stats_empty_iff)
  then show ?thesis
    by (simp add: calculate_empty)
qed

theorem no_label_empty_result_witness:
  "duration_stats_of (rows silent) = [] \<and>
   calculate_stats_multi_guest silent =
     Inr \<lparr>frame = silent\<lparr>Dominant_Speaker := Some [None, None, None]\<rparr>,
          printed = [], returned = []\<rparr>"
proof -
  have h: "\<forall>r\<in>set (rows silent).
             Type r = ''speech'' \<longrightarrow> get_dominant_speaker (Speakers r) = None"
    by (simp add: silent_def loaded_def speech_def match_here_def)
  have c: "dominant_speaker_column (rows silent) = [None, None, None]"
    by code_simp
  show ?thesis
    using no_label_empty_result [OF h] by (simp add: c)
qed

subsection \<open>The DJ is the first label with the largest total\<close>



subsection \<open>No ratio above 100\<close>



end
